theory Spec2Isabelle
  imports Main "HOL-Library.Word"
begin

unbundle bit_operations_syntax

chapter \<open>V8 atomic utilities and static object visitors\<close>

text \<open>
  A shallow embedding of \<^verbatim>\<open>src/base/atomic-utils.h\<close> and
  \<^verbatim>\<open>src/heap/objects-visiting.h\<close>. Every C++ member function becomes a HOL
  function that takes the object's field and returns the result together with the
  field's new contents. A fatal stop of the process (a failed \<^verbatim>\<open>DCHECK\<close>,
  \<^verbatim>\<open>UNREACHABLE()\<close>, an access outside an array) is the left summand of the
  result.
\<close>

section \<open>Machine words and fatal stops\<close>

text \<open>
  \<^verbatim>\<open>base::AtomicWord\<close> is the pointer-wide integer of the platform: a word of any
  width \<open>'w\<close> (64 on the usual targets, 32 on others). \<^verbatim>\<open>base::Atomic32\<close> has 32
  bits everywhere. The class templates \<^verbatim>\<open>AtomicNumber\<close>,
  \<^verbatim>\<open>NoBarrierAtomicValue\<close> and \<^verbatim>\<open>AtomicValue\<close>, whose storage is private, are
  taken at a \<^verbatim>\<open>T\<close> as wide as that storage, where the \<^verbatim>\<open>static_cast\<close>s of
  \<^verbatim>\<open>cast_helper\<close> keep every bit. \<^verbatim>\<open>AsAtomic32\<close>, which works on memory it
  does not own, is taken at every width of \<^verbatim>\<open>T\<close> it admits.
\<close>

type_synonym 'w AtomicWord = "'w word"

datatype fatal = DCHECK_failed | UNREACHABLE_reached | Out_of_bounds

section \<open>The cell operations of atomicops.h\<close>

text \<open>
  Modelled from the spec: the free functions \<^verbatim>\<open>base::Acquire_Load\<close>,
  \<^verbatim>\<open>base::Relaxed_Load\<close>, \<^verbatim>\<open>base::Release_Store\<close>,
  \<^verbatim>\<open>base::Relaxed_Store\<close>, \<^verbatim>\<open>base::Release_CompareAndSwap\<close> and
  \<^verbatim>\<open>base::Relaxed_CompareAndSwap\<close> of \<^verbatim>\<open>src/base/atomicops.h\<close>, which
  \<^verbatim>\<open>atomic-utils.h\<close> includes and which is not among the sources. The spec (4.1)
  names them load, store and compare-and-swap of a scalar cell. A cell is the word it
  holds: a load returns it, a store replaces it, and a compare-and-swap returns the
  word it found and installs \<open>new_value\<close> only when that word is \<open>old_value\<close>.
  The ordering strength (acquire, release, relaxed) does not change the value read or
  written, so both strengths have the same equation. The first argument is the
  contents of the cell before the call; a store and a compare-and-swap return its
  contents after the call.
\<close>

definition Acquire_Load :: "'w::len word \<Rightarrow> 'w word" where
  "Acquire_Load ptr = ptr"

definition Relaxed_Load :: "'w::len word \<Rightarrow> 'w word" where
  "Relaxed_Load ptr = ptr"

definition Release_Store :: "'w::len word \<Rightarrow> 'w word \<Rightarrow> 'w word" where
  "Release_Store ptr v = v"

definition Relaxed_Store :: "'w::len word \<Rightarrow> 'w word \<Rightarrow> 'w word" where
  "Relaxed_Store ptr v = v"

definition Release_CompareAndSwap ::
  "'w::len word \<Rightarrow> 'w word \<Rightarrow> 'w word \<Rightarrow> 'w word \<times> 'w word" where
  "Release_CompareAndSwap ptr old_value new_value =
     (if ptr = old_value then (ptr, new_value) else (ptr, ptr))"

definition Relaxed_CompareAndSwap ::
  "'w::len word \<Rightarrow> 'w word \<Rightarrow> 'w word \<Rightarrow> 'w word \<times> 'w word" where
  "Relaxed_CompareAndSwap ptr old_value new_value =
     (if ptr = old_value then (ptr, new_value) else (ptr, ptr))"

text \<open>
  The retry loops below read a cell and later compare-and-swap it; in between, another
  thread may have stored to the cell. \<open>env\<close> lists, round by round, the word another
  thread left in the cell between the read and the compare-and-swap of that round. Once
  \<open>env\<close> is used up nobody disturbs the cell any more; \<open>env = []\<close> is the run of a
  single thread.
\<close>

definition other_threads :: "'w::len word list \<Rightarrow> 'w word \<Rightarrow> 'w word" where
  "other_threads env ptr = (case env of [] \<Rightarrow> ptr | w # _ \<Rightarrow> w)"

section \<open>AtomicNumber\<close>

text \<open>
  \<^verbatim>\<open>AtomicNumber() : value_(0) {}\<close>,
  \<^verbatim>\<open>explicit AtomicNumber(T initial) : value_(initial) {}\<close>, and
  \<^verbatim>\<open>Value()\<close>, \<^verbatim>\<open>SetValue(new_value)\<close>. An object is its field
  \<^verbatim>\<open>value_\<close>.
\<close>

definition AtomicNumber_default :: "'w::len AtomicWord" where
  "AtomicNumber_default = 0"

definition AtomicNumber_init :: "'w::len word \<Rightarrow> 'w AtomicWord" where
  "AtomicNumber_init initial = initial"

definition AtomicNumber_Value :: "'w::len AtomicWord \<Rightarrow> 'w word" where
  "AtomicNumber_Value cell = Acquire_Load cell"

definition AtomicNumber_SetValue :: "'w::len word \<Rightarrow> 'w AtomicWord \<Rightarrow> 'w AtomicWord" where
  "AtomicNumber_SetValue new_value cell = Release_Store cell new_value"

section \<open>NoBarrierAtomicValue\<close>

definition NoBarrierAtomicValue_to_storage_type :: "'w::len word \<Rightarrow> 'w AtomicWord" where
  "NoBarrierAtomicValue_to_storage_type v = v"

definition NoBarrierAtomicValue_to_return_type :: "'w::len AtomicWord \<Rightarrow> 'w word" where
  "NoBarrierAtomicValue_to_return_type v = v"

definition NoBarrierAtomicValue_default :: "'w::len AtomicWord" where
  "NoBarrierAtomicValue_default = 0"

definition NoBarrierAtomicValue_init :: "'w::len word \<Rightarrow> 'w AtomicWord" where
  "NoBarrierAtomicValue_init initial = NoBarrierAtomicValue_to_storage_type initial"

definition NoBarrierAtomicValue_Value :: "'w::len AtomicWord \<Rightarrow> 'w word" where
  "NoBarrierAtomicValue_Value cell = NoBarrierAtomicValue_to_return_type (Relaxed_Load cell)"

definition NoBarrierAtomicValue_TrySetValue ::
  "'w::len word \<Rightarrow> 'w word \<Rightarrow> 'w AtomicWord \<Rightarrow> bool \<times> 'w AtomicWord" where
  "NoBarrierAtomicValue_TrySetValue old_value new_value cell =
     (let (prev, cell') =
            Relaxed_CompareAndSwap cell (NoBarrierAtomicValue_to_storage_type old_value)
              (NoBarrierAtomicValue_to_storage_type new_value)
      in (prev = NoBarrierAtomicValue_to_storage_type old_value, cell'))"

definition NoBarrierAtomicValue_SetValue ::
  "'w::len word \<Rightarrow> 'w AtomicWord \<Rightarrow> 'w AtomicWord" where
  "NoBarrierAtomicValue_SetValue new_value cell =
     Relaxed_Store cell (NoBarrierAtomicValue_to_storage_type new_value)"

section \<open>AtomicValue\<close>

definition AtomicValue_to_storage_type :: "'w::len word \<Rightarrow> 'w AtomicWord" where
  "AtomicValue_to_storage_type v = v"

definition AtomicValue_to_return_type :: "'w::len AtomicWord \<Rightarrow> 'w word" where
  "AtomicValue_to_return_type v = v"

definition AtomicValue_default :: "'w::len AtomicWord" where
  "AtomicValue_default = 0"

definition AtomicValue_init :: "'w::len word \<Rightarrow> 'w AtomicWord" where
  "AtomicValue_init initial = AtomicValue_to_storage_type initial"

definition AtomicValue_Value :: "'w::len AtomicWord \<Rightarrow> 'w word" where
  "AtomicValue_Value cell = AtomicValue_to_return_type (Acquire_Load cell)"

definition AtomicValue_TrySetValue ::
  "'w::len word \<Rightarrow> 'w word \<Rightarrow> 'w AtomicWord \<Rightarrow> bool \<times> 'w AtomicWord" where
  "AtomicValue_TrySetValue old_value new_value cell =
     (let (prev, cell') =
            Release_CompareAndSwap cell (AtomicValue_to_storage_type old_value)
              (AtomicValue_to_storage_type new_value)
      in (prev = AtomicValue_to_storage_type old_value, cell'))"

definition AtomicValue_SetValue :: "'w::len word \<Rightarrow> 'w AtomicWord \<Rightarrow> 'w AtomicWord" where
  "AtomicValue_SetValue new_value cell =
     Release_Store cell (AtomicValue_to_storage_type new_value)"

text \<open>
  The \<^verbatim>\<open>do { ... } while (!TrySetValue(old_value, new_value))\<close> of
  \<^verbatim>\<open>SetBits\<close>. A round fails only when another thread changed the cell after
  the read, so the loop ends at the latest when \<open>env\<close> is used up.
\<close>

function AtomicValue_SetBits_loop ::
  "'w::len word list \<Rightarrow> 'w word \<Rightarrow> 'w word \<Rightarrow> 'w AtomicWord \<Rightarrow> 'w AtomicWord" where
  "AtomicValue_SetBits_loop env bits msk cell =
     (let old_value = AtomicValue_Value cell;
          new_value = (old_value AND NOT msk) OR bits;
          (ok, cell') = AtomicValue_TrySetValue old_value new_value (other_threads env cell)
      in if \<not> ok then AtomicValue_SetBits_loop (tl env) bits msk cell' else cell')"
  by pat_completeness auto
termination
proof (relation "measure (\<lambda>(env, bits, msk, cell). length env)", goal_cases)
  case 1
  show ?case by simp
next
  case (2 env bits msk cell old_value new_value x ok cell')
  have "env \<noteq> []"
  proof
    assume "env = []"
    with 2 show False
      by (simp add: AtomicValue_TrySetValue_def Release_CompareAndSwap_def other_threads_def
          AtomicValue_Value_def Acquire_Load_def AtomicValue_to_storage_type_def
          AtomicValue_to_return_type_def)
  qed
  then show ?case
    by (cases env) simp_all
qed

declare AtomicValue_SetBits_loop.simps [simp del]

text \<open>
  \<^verbatim>\<open>SetBits(bits, mask)\<close>: the \<^verbatim>\<open>DCHECK_EQ(bits & ~mask, 0)\<close>, then the loop.
  The \<^verbatim>\<open>DCHECK\<close> is taken as compiled in (a debug build).
\<close>

definition AtomicValue_SetBits ::
  "'w::len word list \<Rightarrow> 'w word \<Rightarrow> 'w word \<Rightarrow> 'w AtomicWord \<Rightarrow> fatal + 'w AtomicWord" where
  "AtomicValue_SetBits env bits msk cell =
     (if bits AND NOT msk \<noteq> 0 then Inl DCHECK_failed
      else Inr (AtomicValue_SetBits_loop env bits msk cell))"

section \<open>AtomicEnumSet\<close>

text \<open>
  An element of the enum \<^verbatim>\<open>E\<close> is its number (\<^verbatim>\<open>kA = 0\<close>, \<^verbatim>\<open>kB = 1\<close>, ...).
  \<^verbatim>\<open>STATIC_ASSERT(E::kLastValue < sizeof(base::AtomicWord) * CHAR_BIT)\<close> keeps
  every element below the width of the word; the shift of \<^verbatim>\<open>Mask\<close> is undefined
  in C++ for any other number.
\<close>

definition AtomicEnumSet_init :: "'w::len AtomicWord \<Rightarrow> 'w AtomicWord" where
  "AtomicEnumSet_init bits = bits"

definition AtomicEnumSet_default :: "'w::len AtomicWord" where
  "AtomicEnumSet_default = AtomicEnumSet_init 0"

definition ToIntegral :: "'w::len AtomicWord \<Rightarrow> 'w AtomicWord" where
  "ToIntegral bits = Acquire_Load bits"

definition Mask :: "nat \<Rightarrow> 'w::len AtomicWord" where
  "Mask element = push_bit element 1"

definition IsEmpty :: "'w::len AtomicWord \<Rightarrow> bool" where
  "IsEmpty bits = (ToIntegral bits = 0)"

definition Contains :: "'w::len AtomicWord \<Rightarrow> nat \<Rightarrow> bool" where
  "Contains bits element = (ToIntegral bits AND Mask element \<noteq> 0)"

definition RemoveAll :: "'w::len AtomicWord \<Rightarrow> 'w AtomicWord" where
  "RemoveAll bits = Release_Store bits 0"

text \<open>
  The macro \<^verbatim>\<open>ATOMIC_SET_WRITE(OP, NEW_VAL)\<close>: read \<^verbatim>\<open>old\<close>, then
  compare-and-swap \<^verbatim>\<open>old OP NEW_VAL\<close> in, until the swap finds \<^verbatim>\<open>old\<close>.
\<close>

function ATOMIC_SET_WRITE ::
  "'w::len word list \<Rightarrow> ('w word \<Rightarrow> 'w word \<Rightarrow> 'w word) \<Rightarrow> 'w word
     \<Rightarrow> 'w AtomicWord \<Rightarrow> 'w AtomicWord" where
  "ATOMIC_SET_WRITE env OP NEW_VAL bits =
     (let old = Acquire_Load bits;
          (prev, bits') = Release_CompareAndSwap (other_threads env bits) old (OP old NEW_VAL)
      in if prev \<noteq> old then ATOMIC_SET_WRITE (tl env) OP NEW_VAL bits' else bits')"
  by pat_completeness auto
termination
proof (relation "measure (\<lambda>(env, OP, NEW_VAL, bits). length env)", goal_cases)
  case 1
  show ?case by simp
next
  case (2 env OP NEW_VAL bits old x prev bits')
  have "env \<noteq> []"
  proof
    assume "env = []"
    with 2 show False
      by (simp add: Release_CompareAndSwap_def other_threads_def Acquire_Load_def
          split: if_splits)
  qed
  then show ?case
    by (cases env) simp_all
qed

declare ATOMIC_SET_WRITE.simps [simp del]

definition Add :: "'w::len word list \<Rightarrow> nat \<Rightarrow> 'w AtomicWord \<Rightarrow> 'w AtomicWord" where
  "Add env element bits = ATOMIC_SET_WRITE env (OR) (Mask element) bits"

definition Remove :: "'w::len word list \<Rightarrow> nat \<Rightarrow> 'w AtomicWord \<Rightarrow> 'w AtomicWord" where
  "Remove env element bits = ATOMIC_SET_WRITE env (AND) (NOT (Mask element)) bits"

section \<open>AsAtomic32\<close>








section \<open>Visitor ids\<close>

text \<open>
  \<^verbatim>\<open>VISITOR_ID_LIST(V)\<close> of \<^verbatim>\<open>objects-visiting.h\<close>. The enum
  \<^verbatim>\<open>VisitorId\<close> declares \<^verbatim>\<open>kVisit##id\<close> for the entries of the list in
  order, starting at 0, and \<^verbatim>\<open>kVisitorIdCount\<close> after the last one. A visitor id
  is its number.
\<close>

definition VISITOR_ID_LIST :: "string list" where
  "VISITOR_ID_LIST =
     [''AllocationSite'', ''ByteArray'', ''BytecodeArray'', ''Cell'', ''Code'',
      ''ConsString'', ''DataObject'', ''FixedArray'', ''FixedDoubleArray'',
      ''FixedFloat64Array'', ''FixedTypedArrayBase'', ''FreeSpace'', ''JSApiObject'',
      ''JSArrayBuffer'', ''JSFunction'', ''JSObject'', ''JSObjectFast'', ''JSRegExp'',
      ''JSWeakCollection'', ''Map'', ''NativeContext'', ''Oddball'', ''PropertyCell'',
      ''SeqOneByteString'', ''SeqTwoByteString'', ''SharedFunctionInfo'',
      ''ShortcutCandidate'', ''SlicedString'', ''SmallOrderedHashMap'',
      ''SmallOrderedHashSet'', ''Struct'', ''Symbol'', ''ThinString'', ''TransitionArray'',
      ''WeakCell'']"

type_synonym VisitorId = nat

definition kVisit :: "string \<Rightarrow> VisitorId" where
  "kVisit name = length (takeWhile (\<lambda>x. x \<noteq> name) VISITOR_ID_LIST)"

definition kVisitorIdCount :: VisitorId where
  "kVisitorIdCount = length VISITOR_ID_LIST"

section \<open>VisitorDispatchTable\<close>

text \<open>
  A \<^verbatim>\<open>Callback\<close> is a function pointer, stored in the table as the
  \<^verbatim>\<open>base::AtomicWord\<close> with the same bits; both \<^verbatim>\<open>reinterpret_cast\<close>s keep
  the word. The field \<^verbatim>\<open>callbacks_\<close> is an array of \<^verbatim>\<open>kVisitorIdCount\<close>
  words: a function from the index to the word of the slot. An index from
  \<^verbatim>\<open>kVisitorIdCount\<close> on is outside the array, where C++ leaves the access
  undefined; here it is the fatal stop \<open>Out_of_bounds\<close>. The tables of the visitors
  are static members, which C++ fills with zeros before \<^verbatim>\<open>Initialize()\<close>.
\<close>

type_synonym 'w Callback = "'w word"

definition reinterpret_cast_AtomicWord :: "'w::len Callback \<Rightarrow> 'w AtomicWord" where
  "reinterpret_cast_AtomicWord callback = callback"

definition reinterpret_cast_Callback :: "'w::len AtomicWord \<Rightarrow> 'w Callback" where
  "reinterpret_cast_Callback w = w"

type_synonym 'w VisitorDispatchTable = "nat \<Rightarrow> 'w AtomicWord"

definition zero_initialized_table :: "'w::len VisitorDispatchTable" where
  "zero_initialized_table = (\<lambda>i. 0)"

definition GetVisitorById ::
  "'w::len VisitorDispatchTable \<Rightarrow> VisitorId \<Rightarrow> fatal + 'w Callback" where
  "GetVisitorById callbacks vid =
     (if vid < kVisitorIdCount then Inr (reinterpret_cast_Callback (callbacks vid))
      else Inl Out_of_bounds)"

definition Register ::
  "VisitorId \<Rightarrow> 'w::len Callback \<Rightarrow> 'w VisitorDispatchTable
     \<Rightarrow> fatal + 'w VisitorDispatchTable" where
  "Register vid callback callbacks =
     (if \<not> vid < kVisitorIdCount then Inl DCHECK_failed
      else Inr (callbacks(vid := reinterpret_cast_AtomicWord callback)))"

text \<open>
  \<^verbatim>\<open>CopyFrom(other)\<close> works on two table objects that may be the same one, so it
  runs on a store \<open>heap\<close> from the address of a table to its \<^verbatim>\<open>callbacks_\<close>.
  \<open>CopyFrom_store\<close> is the body of the loop,
  \<^verbatim>\<open>base::Relaxed_Store(&callbacks_[i], other->callbacks_[i])\<close>;
  \<open>CopyFrom_loop\<close> is the \<^verbatim>\<open>for\<close> loop from \<open>i\<close> on.
\<close>

definition CopyFrom_store ::
  "'p \<Rightarrow> 'p \<Rightarrow> nat \<Rightarrow> ('p \<Rightarrow> 'w::len VisitorDispatchTable)
     \<Rightarrow> ('p \<Rightarrow> 'w VisitorDispatchTable)" where
  "CopyFrom_store this other i heap =
     heap(this := (heap this)(i := Relaxed_Store (heap this i) (heap other i)))"

function CopyFrom_loop ::
  "nat \<Rightarrow> 'p \<Rightarrow> 'p \<Rightarrow> ('p \<Rightarrow> 'w::len VisitorDispatchTable)
     \<Rightarrow> ('p \<Rightarrow> 'w VisitorDispatchTable)" where
  "CopyFrom_loop i this other heap =
     (if i < kVisitorIdCount
      then CopyFrom_loop (i + 1) this other (CopyFrom_store this other i heap)
      else heap)"
  by pat_completeness auto
termination
  by (relation "measure (\<lambda>(i, this, other, heap). kVisitorIdCount - i)") auto

declare CopyFrom_loop.simps [simp del]

definition CopyFrom ::
  "'p \<Rightarrow> 'p \<Rightarrow> ('p \<Rightarrow> 'w::len VisitorDispatchTable) \<Rightarrow> ('p \<Rightarrow> 'w VisitorDispatchTable)" where
  "CopyFrom this other heap = CopyFrom_loop 0 this other heap"

text \<open>
  The same loop, returning every store it passes through: the store at the loop head
  with \<open>i\<close>, then those of the later rounds. A reader running beside the copy sees one
  of these.
\<close>

function CopyFrom_states ::
  "nat \<Rightarrow> 'p \<Rightarrow> 'p \<Rightarrow> ('p \<Rightarrow> 'w::len VisitorDispatchTable)
     \<Rightarrow> ('p \<Rightarrow> 'w VisitorDispatchTable) list" where
  "CopyFrom_states i this other heap =
     heap # (if i < kVisitorIdCount
             then CopyFrom_states (i + 1) this other (CopyFrom_store this other i heap)
             else [])"
  by pat_completeness auto
termination
  by (relation "measure (\<lambda>(i, this, other, heap). kVisitorIdCount - i)") auto

declare CopyFrom_states.simps [simp del]

text \<open>
  Modelled from the spec: \<^verbatim>\<open>VisitorDispatchTable::GetVisitor(Map* map)\<close>, which
  \<^verbatim>\<open>objects-visiting.h\<close> only declares; its body is in a file that is not among
  the sources. Spec 4.3: it "resolves \<open>id\<close> via 4.2 then reads the slot". The id of a
  map, \<open>visitor_id\<close>, is a parameter.
\<close>

definition GetVisitor ::
  "'w::len VisitorDispatchTable \<Rightarrow> ('m \<Rightarrow> VisitorId) \<Rightarrow> 'm \<Rightarrow> fatal + 'w Callback" where
  "GetVisitor callbacks visitor_id map' = GetVisitorById callbacks (visitor_id map')"

text \<open>
  \<^verbatim>\<open>StaticNewSpaceVisitor::UnreachableVisitor(Map* map, HeapObject* object)\<close>, whose
  body is \<^verbatim>\<open>UNREACHABLE();\<close>.
\<close>

definition UnreachableVisitor :: "'m \<Rightarrow> 'o \<Rightarrow> fatal + int" where
  "UnreachableVisitor map' object = Inl UNREACHABLE_reached"

section \<open>Visitor ids of plain-data shapes\<close>

text \<open>
  Modelled from the spec: the size formula of
  \<^verbatim>\<open>StaticVisitorBase::GetVisitorId(instance_type, instance_size, has_unboxed_fields)\<close>,
  which \<^verbatim>\<open>objects-visiting.h\<close> only declares; its body is in a file that is not
  among the sources, and the enum of the header has no size-specialised ids. Spec 4.2
  (\<^verbatim>\<open>AssignId\<close>): plain-data shapes map through
  \<^verbatim>\<open>id = base_id + (size_in_words - 2)\<close> for \<^verbatim>\<open>size_in_words\<close> in
  \<^verbatim>\<open>[2, N]\<close>; anything outside that range, or any shape flagged as having unboxed
  inline fields, maps to a designated generic id. \<open>base_id\<close>, \<open>generic_id\<close> and \<open>N\<close>
  are parameters.
\<close>

definition AssignId :: "VisitorId \<Rightarrow> VisitorId \<Rightarrow> int \<Rightarrow> int \<Rightarrow> bool \<Rightarrow> VisitorId" where
  "AssignId base_id generic_id N size_in_words has_unboxed_fields =
     (if 2 \<le> size_in_words \<and> size_in_words \<le> N \<and> \<not> has_unboxed_fields
      then base_id + nat (size_in_words - 2)
      else generic_id)"

section \<open>FlexibleBodyVisitor and FixedBodyVisitor\<close>

text \<open>
  The template parameter \<^verbatim>\<open>ReturnType\<close> is \<^verbatim>\<open>int\<close> in the new-space visitor
  and \<^verbatim>\<open>void\<close> in the marking visitor; \<^verbatim>\<open>static_cast<ReturnType>(n)\<close> is
  \<open>n\<close> for the first and no value for the second.
\<close>

datatype ReturnType = ReturnType_int | ReturnType_void

datatype ReturnValue = int_value int | void_value

fun static_cast_ReturnType :: "ReturnType \<Rightarrow> int \<Rightarrow> ReturnValue" where
  "static_cast_ReturnType ReturnType_int n = int_value n"
| "static_cast_ReturnType ReturnType_void n = void_value"

text \<open>
  The template parameter \<^verbatim>\<open>BodyDescriptor\<close> is given by its members:
  \<^verbatim>\<open>SizeOf(map, object)\<close> and \<^verbatim>\<open>IterateBody<StaticVisitor>(object, size)\<close>
  for the flexible visitor, \<^verbatim>\<open>kSize\<close> and
  \<^verbatim>\<open>IterateBody<StaticVisitor>(object)\<close> for the fixed one. They run on a state
  \<open>'s\<close> (the heap and whatever the static visitor keeps), which every call may read and
  change.
\<close>

definition FlexibleBodyVisitor_Visit ::
  "('m \<Rightarrow> 'o \<Rightarrow> 's \<Rightarrow> int \<times> 's) \<Rightarrow> ('o \<Rightarrow> int \<Rightarrow> 's \<Rightarrow> 's) \<Rightarrow> ReturnType
     \<Rightarrow> 'm \<Rightarrow> 'o \<Rightarrow> 's \<Rightarrow> ReturnValue \<times> 's" where
  "FlexibleBodyVisitor_Visit SizeOf IterateBody rt map' object s =
     (let (object_size, s1) = SizeOf map' object s;
          s2 = IterateBody object object_size s1
      in (static_cast_ReturnType rt object_size, s2))"

definition FixedBodyVisitor_Visit ::
  "int \<Rightarrow> ('o \<Rightarrow> 's \<Rightarrow> 's) \<Rightarrow> ReturnType \<Rightarrow> 'm \<Rightarrow> 'o \<Rightarrow> 's \<Rightarrow> ReturnValue \<times> 's" where
  "FixedBodyVisitor_Visit kSize IterateBody rt map' object s =
     (let s1 = IterateBody object s
      in (static_cast_ReturnType rt kSize, s1))"

text \<open>
  A body descriptor that does nothing but write down the calls it receives, with their
  arguments, in the order they arrive. Its state is the list of calls so far.
\<close>

datatype ('m, 'o) descriptor_call =
  SizeOf_called 'm 'o | IterateBody_sized_called 'o int | IterateBody_called 'o

definition recording_SizeOf ::
  "('m \<Rightarrow> 'o \<Rightarrow> int) \<Rightarrow> 'm \<Rightarrow> 'o \<Rightarrow> ('m, 'o) descriptor_call list
     \<Rightarrow> int \<times> ('m, 'o) descriptor_call list" where
  "recording_SizeOf size_of map' object calls =
     (size_of map' object, calls @ [SizeOf_called map' object])"

definition recording_IterateBody_sized ::
  "'o \<Rightarrow> int \<Rightarrow> ('m, 'o) descriptor_call list \<Rightarrow> ('m, 'o) descriptor_call list" where
  "recording_IterateBody_sized object object_size calls =
     calls @ [IterateBody_sized_called object object_size]"

definition recording_IterateBody ::
  "'o \<Rightarrow> ('m, 'o) descriptor_call list \<Rightarrow> ('m, 'o) descriptor_call list" where
  "recording_IterateBody object calls = calls @ [IterateBody_called object]"

section \<open>Facts about the cell operations and the retry loops\<close>

lemmas atomic_cell_defs =
  Acquire_Load_def Relaxed_Load_def Release_Store_def Relaxed_Store_def
  Release_CompareAndSwap_def Relaxed_CompareAndSwap_def other_threads_def

lemmas AtomicValue_defs =
  AtomicValue_TrySetValue_def AtomicValue_Value_def AtomicValue_to_storage_type_def
  AtomicValue_to_return_type_def

lemma AtomicValue_SetBits_loop_sequential:
  "AtomicValue_SetBits_loop [] bits msk v = (v AND NOT msk) OR bits"
  by (subst AtomicValue_SetBits_loop.simps) (simp add: AtomicValue_defs atomic_cell_defs)

lemma AtomicValue_SetBits_loop_disturbed:
  "AtomicValue_SetBits_loop (w # env) bits msk v =
     (if w = v then (v AND NOT msk) OR bits else AtomicValue_SetBits_loop env bits msk w)"
  by (subst AtomicValue_SetBits_loop.simps) (simp add: AtomicValue_defs atomic_cell_defs)

lemma AtomicValue_SetBits_loop_no_lost_update:
  "\<exists>u \<in> set (v # env). AtomicValue_SetBits_loop env bits msk v = (u AND NOT msk) OR bits"
proof (induction env arbitrary: v)
  case Nil
  show ?case by (simp add: AtomicValue_SetBits_loop_sequential)
next
  case (Cons w env)
  from Cons.IH [of w] show ?case
    by (auto simp: AtomicValue_SetBits_loop_disturbed)
qed

lemma bits_within_mask:
  fixes bits msk :: "'w::len word"
  assumes "bits AND NOT msk = 0" and "bit bits n"
  shows "bit msk n"
proof -
  have "\<not> bit (bits AND NOT msk) n"
    using assms(1) by simp
  with assms(2) show ?thesis
    by (auto simp: bit_and_iff bit_not_iff dest: bit_imp_le_length)
qed

lemma masked_bits_replaced:
  fixes v :: "'w::len word"
  assumes "bits AND NOT msk = 0"
  shows "((v AND NOT msk) OR bits) AND msk = bits"
  by (rule bit_word_eqI)
    (auto simp: bit_and_iff bit_or_iff bit_not_iff dest: bits_within_mask [OF assms])

lemma unmasked_bits_preserved:
  fixes v :: "'w::len word"
  assumes "bits AND NOT msk = 0"
  shows "((v AND NOT msk) OR bits) AND NOT msk = v AND NOT msk"
  by (rule bit_word_eqI)
    (auto simp: bit_and_iff bit_or_iff bit_not_iff dest: bits_within_mask [OF assms])

lemma ATOMIC_SET_WRITE_sequential:
  "ATOMIC_SET_WRITE [] OP NEW_VAL bits = OP bits NEW_VAL"
  by (subst ATOMIC_SET_WRITE.simps) (simp add: atomic_cell_defs)

lemma Contains_iff_bit:
  fixes bits :: "'w::len word"
  shows "Contains bits element \<longleftrightarrow> bit bits element"
  by (simp add: Contains_def ToIntegral_def Mask_def Acquire_Load_def
      bit_iff_and_push_bit_not_eq_0)

lemma bit_Add:
  fixes bits :: "'w::len word"
  shows "bit (Add [] element bits) n \<longleftrightarrow> bit bits n \<or> (n = element \<and> element < LENGTH('w))"
  by (auto simp: Add_def Mask_def ATOMIC_SET_WRITE_sequential bit_or_iff bit_exp_iff
      possible_bit_word)

lemma bit_Remove:
  fixes bits :: "'w::len word"
  shows "bit (Remove [] element bits) n \<longleftrightarrow> bit bits n \<and> n \<noteq> element"
  by (auto simp: Remove_def Mask_def ATOMIC_SET_WRITE_sequential bit_and_iff bit_not_iff
      bit_exp_iff possible_bit_word dest: bit_imp_le_length)




section \<open>Facts about the visitor ids and the copy loop\<close>

lemma kVisitorIdCount_eq: "kVisitorIdCount = 35"
  by (simp add: kVisitorIdCount_def VISITOR_ID_LIST_def)

lemma kVisitorIdCount_fits_a_byte: "kVisitorIdCount \<le> 256"
  by (simp add: kVisitorIdCount_eq)

lemma kVisitCode_eq: "kVisit ''Code'' = 4"
  by (simp add: kVisit_def VISITOR_ID_LIST_def)

lemma kVisitMap_eq: "kVisit ''Map'' = 19"
  by (simp add: kVisit_def VISITOR_ID_LIST_def)

lemma CopyFrom_store_slot:
  "CopyFrom_store this other i heap p j =
     (if p = this \<and> j = i then heap other i else heap p j)"
  by (simp add: CopyFrom_store_def Relaxed_Store_def)

lemma CopyFrom_loop_slot:
  "CopyFrom_loop i this other heap p j =
     (if p = this \<and> i \<le> j \<and> j < kVisitorIdCount then heap other j else heap p j)"
proof (induction i this other heap rule: CopyFrom_loop.induct)
  case (1 i this other heap)
  show ?case
  proof (cases "i < kVisitorIdCount")
    case True
    let ?heap' = "CopyFrom_store this other i heap"
    have "CopyFrom_loop i this other heap p j = CopyFrom_loop (i + 1) this other ?heap' p j"
      using True by (subst CopyFrom_loop.simps) simp
    also have "\<dots> =
        (if p = this \<and> i + 1 \<le> j \<and> j < kVisitorIdCount then ?heap' other j else ?heap' p j)"
      by (rule "1.IH" [OF True])
    also have "\<dots> =
        (if p = this \<and> i \<le> j \<and> j < kVisitorIdCount then heap other j else heap p j)"
      using True by (auto simp: CopyFrom_store_slot)
    finally show ?thesis .
  next
    case False
    then show ?thesis
      by (subst CopyFrom_loop.simps) auto
  qed
qed

lemma CopyFrom_states_unfold:
  "CopyFrom_states i this other heap =
     heap # (if i < kVisitorIdCount
             then CopyFrom_states (Suc i) this other (CopyFrom_store this other i heap)
             else [])"
  by (subst CopyFrom_states.simps) simp

lemma CopyFrom_states_last:
  "last (CopyFrom_states i this other heap) = CopyFrom_loop i this other heap"
proof (induction i this other heap rule: CopyFrom_states.induct)
  case (1 i this other heap)
  show ?case
  proof (cases "i < kVisitorIdCount")
    case True
    have ne: "CopyFrom_states (i + 1) this other (CopyFrom_store this other i heap) \<noteq> []"
      by (subst CopyFrom_states.simps) simp
    show ?thesis
      using "1.IH" [OF True] True ne
      by (subst CopyFrom_states.simps, subst CopyFrom_loop.simps) simp
  next
    case False
    then show ?thesis
      by (subst CopyFrom_states.simps, subst CopyFrom_loop.simps) simp
  qed
qed

lemma CopyFrom_states_length:
  "length (CopyFrom_states i this other heap) = Suc (kVisitorIdCount - i)"
proof (induction i this other heap rule: CopyFrom_states.induct)
  case (1 i this other heap)
  show ?case
  proof (cases "i < kVisitorIdCount")
    case True
    with "1.IH" [OF True] show ?thesis
      by (subst CopyFrom_states_unfold) (simp add: Suc_diff_Suc)
  next
    case False
    then show ?thesis
      by (subst CopyFrom_states_unfold) simp
  qed
qed

lemma CopyFrom_states_first:
  "CopyFrom_states i this other heap ! 0 = heap"
  by (subst CopyFrom_states_unfold) simp

lemma CopyFrom_states_step:
  "i + k < kVisitorIdCount \<Longrightarrow>
     CopyFrom_states i this other heap ! Suc k =
       CopyFrom_store this other (i + k) (CopyFrom_states i this other heap ! k)"
proof (induction k arbitrary: i heap)
  case 0
  then have "CopyFrom_states i this other heap =
      heap # CopyFrom_states (Suc i) this other (CopyFrom_store this other i heap)"
    by (subst CopyFrom_states_unfold) simp
  then show ?case
    by (simp add: CopyFrom_states_first)
next
  case (Suc k)
  let ?heap' = "CopyFrom_store this other i heap"
  from Suc.prems have i: "i < kVisitorIdCount" and k: "Suc i + k < kVisitorIdCount"
    by simp_all
  have unfold: "CopyFrom_states i this other heap = heap # CopyFrom_states (Suc i) this other ?heap'"
    using i by (subst CopyFrom_states_unfold) simp
  have "CopyFrom_states i this other heap ! Suc (Suc k)
      = CopyFrom_states (Suc i) this other ?heap' ! Suc k"
    by (simp add: unfold)
  also have "\<dots> = CopyFrom_store this other (Suc i + k)
      (CopyFrom_states (Suc i) this other ?heap' ! k)"
    by (rule Suc.IH [OF k])
  also have "\<dots> = CopyFrom_store this other (i + Suc k)
      (CopyFrom_states i this other heap ! Suc k)"
    by (simp add: unfold)
  finally show ?case .
qed

lemma CopyFrom_states_slot:
  "h \<in> set (CopyFrom_states i this other heap) \<Longrightarrow>
     h p j = heap p j \<or> (p = this \<and> j < kVisitorIdCount \<and> h p j = heap other j)"
proof (induction i this other heap rule: CopyFrom_states.induct)
  case (1 i this other heap)
  show ?case
  proof (cases "i < kVisitorIdCount")
    case True
    let ?heap' = "CopyFrom_store this other i heap"
    from "1.prems" True
    consider "h = heap" | "h \<in> set (CopyFrom_states (i + 1) this other ?heap')"
      by (subst (asm) CopyFrom_states.simps) auto
    then show ?thesis
    proof cases
      case 1
      then show ?thesis by simp
    next
      case 2
      from "1.IH" [OF True 2] True show ?thesis
        by (auto simp: CopyFrom_store_slot split: if_splits)
    qed
  next
    case False
    with "1.prems" have "h = heap"
      by (subst (asm) CopyFrom_states.simps) simp
    then show ?thesis by simp
  qed
qed

section \<open>Properties of the dispatch table\<close>

text \<open>
  C1. For tables at \<open>dst\<close> and \<open>src\<close> (the same one or two) and every id below
  \<^verbatim>\<open>kVisitorIdCount\<close>: after \<^verbatim>\<open>dst.CopyFrom(src)\<close>, \<^verbatim>\<open>GetVisitorById(id)\<close> on
  \<open>dst\<close> returns the entry of \<open>src\<close> at \<open>id\<close>, which is \<open>e\<close> when
  \<^verbatim>\<open>Register(id, e)\<close> gave \<open>src\<close> its contents. The copy goes slot by slot: it passes
  through \<^verbatim>\<open>kVisitorIdCount + 1\<close> stores, the first the one before the call, the last
  the one after it, each next one got from the one before by the single
  \<^verbatim>\<open>Relaxed_Store\<close> into slot \<open>k\<close> of \<open>dst\<close> (\<open>CopyFrom_store\<close>); and in
  each of them the slot \<open>id\<close> of \<open>dst\<close> holds the entry \<open>dst\<close> had before the copy
  or the entry of \<open>src\<close>.
\<close>

theorem CopyFrom_then_GetVisitorById:
  fixes heap :: "'p \<Rightarrow> 'w::len VisitorDispatchTable"
  assumes "vid < kVisitorIdCount"
  shows "GetVisitorById (CopyFrom dst src heap dst) vid = GetVisitorById (heap src) vid
    \<and> GetVisitorById (CopyFrom dst src heap dst) vid = Inr (heap src vid)
    \<and> (\<forall>t. Register vid e t = Inr (heap src)
          \<longrightarrow> GetVisitorById (CopyFrom dst src heap dst) vid = Inr e)
    \<and> length (CopyFrom_states 0 dst src heap) = kVisitorIdCount + 1
    \<and> CopyFrom_states 0 dst src heap ! 0 = heap
    \<and> last (CopyFrom_states 0 dst src heap) = CopyFrom dst src heap
    \<and> (\<forall>k. k < kVisitorIdCount \<longrightarrow>
          CopyFrom_states 0 dst src heap ! Suc k =
            CopyFrom_store dst src k (CopyFrom_states 0 dst src heap ! k))
    \<and> (\<forall>h \<in> set (CopyFrom_states 0 dst src heap).
          GetVisitorById (h dst) vid = GetVisitorById (heap dst) vid
          \<or> GetVisitorById (h dst) vid = GetVisitorById (heap src) vid)"
proof -
  have slot: "CopyFrom dst src heap dst vid = heap src vid"
    using assms by (simp add: CopyFrom_def CopyFrom_loop_slot)
  have a: "GetVisitorById (CopyFrom dst src heap dst) vid = Inr (heap src vid)"
    using assms by (simp add: GetVisitorById_def reinterpret_cast_Callback_def slot)
  have b: "GetVisitorById (heap src) vid = Inr (heap src vid)"
    using assms by (simp add: GetVisitorById_def reinterpret_cast_Callback_def)
  have c: "GetVisitorById (CopyFrom dst src heap dst) vid = Inr e"
    if "Register vid e t = Inr (heap src)" for t
  proof -
    from that assms have "heap src = t(vid := e)"
      by (simp add: Register_def reinterpret_cast_AtomicWord_def)
    then have "heap src vid = e" by simp
    with a show ?thesis by simp
  qed
  have d: "last (CopyFrom_states 0 dst src heap) = CopyFrom dst src heap"
    by (simp add: CopyFrom_def CopyFrom_states_last)
  have e: "GetVisitorById (h dst) vid = GetVisitorById (heap dst) vid
          \<or> GetVisitorById (h dst) vid = GetVisitorById (heap src) vid"
    if "h \<in> set (CopyFrom_states 0 dst src heap)" for h
    using CopyFrom_states_slot [OF that, of dst vid]
    by (auto simp: GetVisitorById_def)
  have f: "length (CopyFrom_states 0 dst src heap) = kVisitorIdCount + 1"
    by (simp add: CopyFrom_states_length)
  have g: "CopyFrom_states 0 dst src heap ! 0 = heap"
    by (rule CopyFrom_states_first)
  have h: "CopyFrom_states 0 dst src heap ! Suc k =
            CopyFrom_store dst src k (CopyFrom_states 0 dst src heap ! k)"
    if "k < kVisitorIdCount" for k
    using CopyFrom_states_step [of 0 k dst src heap] that by simp
  from a b c d e f g h show ?thesis by simp
qed

theorem CopyFrom_then_GetVisitorById_witness:
  "kVisit ''Code'' < kVisitorIdCount
   \<and> GetVisitorById
        (CopyFrom (4096 :: 64 word) 8192
           ((\<lambda>p. zero_initialized_table)(8192 := zero_initialized_table(kVisit ''Code'' := 7)))
           4096)
        (kVisit ''Code'')
     = Inr (7 :: 64 word)"
proof -
  have h: "kVisit ''Code'' < kVisitorIdCount"
    by (simp add: kVisitCode_eq kVisitorIdCount_eq)
  let ?heap = "(\<lambda>p :: 64 word. zero_initialized_table)
      (8192 := zero_initialized_table(kVisit ''Code'' := (7 :: 64 word)))"
  from CopyFrom_then_GetVisitorById [OF h, of 4096 8192 ?heap]
  have "GetVisitorById (CopyFrom 4096 8192 ?heap 4096) (kVisit ''Code'')
      = Inr (?heap 8192 (kVisit ''Code''))"
    by (rule conjunct2 [THEN conjunct1])
  with h show ?thesis by simp
qed

text \<open>
  C2 as stated does not hold: \<^verbatim>\<open>GetVisitorById\<close> on a slot that was never
  written returns normally. In a table that holds the zeros of static storage, the slot
  of \<^verbatim>\<open>kVisitCode\<close> resolves to the null word.
\<close>

theorem GetVisitorById_unwritten_slot_counterexample:
  "GetVisitorById (zero_initialized_table :: 64 VisitorDispatchTable) (kVisit ''Code'') = Inr 0"
  by (simp add: GetVisitorById_def zero_initialized_table_def reinterpret_cast_Callback_def
      kVisitCode_eq kVisitorIdCount_eq)

text \<open>
  C2, amended. \<^verbatim>\<open>GetVisitorById\<close> and \<^verbatim>\<open>GetVisitor\<close> check nothing about the
  slot: for every table and every id below \<^verbatim>\<open>kVisitorIdCount\<close> they return the word
  the slot holds, which is the null word for a slot of a zero-initialised table that was
  never written. The fatal stop belongs to \<^verbatim>\<open>UnreachableVisitor\<close>, the function the
  new-space visitor declares for the shapes it does not handle: called on any map and
  object, it stops the process.
\<close>

theorem GetVisitorById_returns_slot_unchecked:
  fixes callbacks :: "'w::len VisitorDispatchTable"
  assumes "vid < kVisitorIdCount"
  shows "GetVisitorById callbacks vid = Inr (callbacks vid)
    \<and> GetVisitorById (zero_initialized_table :: 'w VisitorDispatchTable) vid = Inr 0
    \<and> (\<forall>(visitor_id :: 'm \<Rightarrow> VisitorId) map'.
          visitor_id map' = vid \<longrightarrow> GetVisitor callbacks visitor_id map' = Inr (callbacks vid))
    \<and> (\<forall>(map' :: 'm) (object :: 'o). UnreachableVisitor map' object = Inl UNREACHABLE_reached)"
  using assms
  by (simp add: GetVisitorById_def GetVisitor_def zero_initialized_table_def
      reinterpret_cast_Callback_def UnreachableVisitor_def)

theorem GetVisitorById_returns_slot_unchecked_witness:
  "kVisit ''Code'' < kVisitorIdCount
   \<and> GetVisitorById (zero_initialized_table(kVisit ''Code'' := (4660 :: 64 word)))
        (kVisit ''Code'') = Inr 4660"
proof -
  have h: "kVisit ''Code'' < kVisitorIdCount"
    by (simp add: kVisitCode_eq kVisitorIdCount_eq)
  let ?t = "zero_initialized_table(kVisit ''Code'' := (4660 :: 64 word))"
  from GetVisitorById_returns_slot_unchecked [OF h, of ?t]
  have "GetVisitorById ?t (kVisit ''Code'') = Inr (?t (kVisit ''Code''))"
    by (rule conjunct1)
  with h show ?thesis by simp
qed

text \<open>
  C7. For every table and every id below \<^verbatim>\<open>kVisitorIdCount\<close>, \<^verbatim>\<open>Register(id, e1)\<close>
  succeeds and \<^verbatim>\<open>GetVisitorById(id)\<close> then returns \<open>e1\<close>; every other slot keeps its
  word, so \<^verbatim>\<open>GetVisitorById\<close> returns there what it returned before; a later
  \<^verbatim>\<open>Register(id, e2)\<close> makes \<^verbatim>\<open>GetVisitorById(id)\<close> return \<open>e2\<close>; and a later
  \<^verbatim>\<open>Register\<close> at another id leaves \<^verbatim>\<open>GetVisitorById(id)\<close> at \<open>e1\<close>.
\<close>

theorem Register_last_write_wins:
  fixes callbacks :: "'w::len VisitorDispatchTable"
  assumes "vid < kVisitorIdCount"
  shows "\<exists>t1. Register vid e1 callbacks = Inr t1
      \<and> GetVisitorById t1 vid = Inr e1
      \<and> (\<forall>vid'. vid' \<noteq> vid \<longrightarrow>
            t1 vid' = callbacks vid' \<and> GetVisitorById t1 vid' = GetVisitorById callbacks vid')
      \<and> (\<exists>t2. Register vid e2 t1 = Inr t2 \<and> GetVisitorById t2 vid = Inr e2)
      \<and> (\<forall>vid'. vid' \<noteq> vid \<and> vid' < kVisitorIdCount \<longrightarrow>
            (\<exists>t3. Register vid' e3 t1 = Inr t3 \<and> GetVisitorById t3 vid = Inr e1))"
  using assms
  by (simp add: Register_def GetVisitorById_def reinterpret_cast_Callback_def
      reinterpret_cast_AtomicWord_def)

theorem Register_last_write_wins_witness:
  "kVisit ''Code'' < kVisitorIdCount
   \<and> (\<exists>t1. Register (kVisit ''Code'') (4660 :: 64 word) zero_initialized_table = Inr t1
        \<and> GetVisitorById t1 (kVisit ''Code'') = Inr 4660
        \<and> GetVisitorById t1 (kVisit ''Map'') = Inr 0
        \<and> (\<exists>t2. Register (kVisit ''Code'') 22136 t1 = Inr t2
              \<and> GetVisitorById t2 (kVisit ''Code'') = Inr 22136))"
proof -
  have h: "kVisit ''Code'' < kVisitorIdCount"
    by (simp add: kVisitCode_eq kVisitorIdCount_eq)
  have n: "kVisit ''Map'' \<noteq> kVisit ''Code''" "kVisit ''Map'' < kVisitorIdCount"
    by (simp_all add: kVisitCode_eq kVisitMap_eq kVisitorIdCount_eq)
  from Register_last_write_wins [OF h,
      of 4660 "zero_initialized_table :: 64 VisitorDispatchTable" 22136 0]
  obtain t1 where t1:
    "Register (kVisit ''Code'') (4660 :: 64 word) zero_initialized_table = Inr t1"
    "GetVisitorById t1 (kVisit ''Code'') = Inr 4660"
    "\<forall>vid'. vid' \<noteq> kVisit ''Code'' \<longrightarrow>
       t1 vid' = zero_initialized_table vid'
       \<and> GetVisitorById t1 vid' = GetVisitorById zero_initialized_table vid'"
    "\<exists>t2. Register (kVisit ''Code'') 22136 t1 = Inr t2
       \<and> GetVisitorById t2 (kVisit ''Code'') = Inr 22136"
    by blast
  from t1(3) n have "GetVisitorById t1 (kVisit ''Map'') = Inr 0"
    by (simp add: GetVisitorById_def zero_initialized_table_def reinterpret_cast_Callback_def)
  with h t1 show ?thesis by blast
qed

section \<open>Properties of the size formula\<close>

text \<open>
  C3. For every \<open>size_in_words\<close> in \<open>[2, N]\<close> and no unboxed inline fields the id is
  \<open>base_id + (size_in_words - 2)\<close>, and these ids are a bijection from the sizes
  \<open>2 .. N\<close> onto the ids \<open>base_id .. base_id + N - 2\<close>. For every size above \<open>N\<close>, and
  for every shape with unboxed inline fields, the id is \<open>generic_id\<close>, which is no
  specialised id as long as \<open>generic_id\<close> itself lies outside
  \<open>base_id .. base_id + N - 2\<close>. The scenario of the spec: 4 words, \<open>base_id = 5\<close>,
  sizes 2 to 6, \<open>generic_id = 40\<close> give 7.
\<close>

theorem AssignId_size_formula:
  "(2 \<le> size_in_words \<and> size_in_words \<le> N \<longrightarrow>
      AssignId base_id generic_id N size_in_words False = base_id + nat (size_in_words - 2))
   \<and> bij_betw (\<lambda>s. int (AssignId base_id generic_id N s False)) {2 .. N}
        {int base_id .. int base_id + N - 2}
   \<and> (N < size_in_words \<or> has_unboxed_fields \<longrightarrow>
        AssignId base_id generic_id N size_in_words has_unboxed_fields = generic_id)
   \<and> (int generic_id \<notin> {int base_id .. int base_id + N - 2}
        \<and> (N < size_in_words \<or> has_unboxed_fields) \<longrightarrow>
        int (AssignId base_id generic_id N size_in_words has_unboxed_fields)
          \<notin> {int base_id .. int base_id + N - 2})
   \<and> AssignId 5 40 6 4 False = 7"
proof -
  have a: "int (AssignId base_id generic_id N s False) = int base_id + (s - 2)"
    if "2 \<le> s" "s \<le> N" for s
    using that by (simp add: AssignId_def)
  have a': "AssignId base_id generic_id N s False = base_id + nat (s - 2)"
    if "2 \<le> s" "s \<le> N" for s
    using that by (simp add: AssignId_def)
  have inj: "inj_on (\<lambda>s. int (AssignId base_id generic_id N s False)) {2 .. N}"
  proof (rule inj_onI)
    fix x y
    assume "x \<in> {2 .. N}" "y \<in> {2 .. N}"
      and "int (AssignId base_id generic_id N x False)
         = int (AssignId base_id generic_id N y False)"
    then have "int base_id + (x - 2) = int base_id + (y - 2)"
      by (simp add: a)
    then show "x = y" by simp
  qed
  have img: "(\<lambda>s. int (AssignId base_id generic_id N s False)) ` {2 .. N}
      = {int base_id .. int base_id + N - 2}"
  proof (rule set_eqI, rule iffI)
    fix x
    assume "x \<in> (\<lambda>s. int (AssignId base_id generic_id N s False)) ` {2 .. N}"
    then obtain s where "2 \<le> s" "s \<le> N" "x = int (AssignId base_id generic_id N s False)"
      by auto
    then show "x \<in> {int base_id .. int base_id + N - 2}"
      by (simp add: a)
  next
    fix x
    assume x: "x \<in> {int base_id .. int base_id + N - 2}"
    define s where "s = x - int base_id + 2"
    from x have s: "2 \<le> s" "s \<le> N"
      unfolding s_def by simp_all
    then have "int (AssignId base_id generic_id N s False) = x"
      by (simp add: a s_def)
    with s show "x \<in> (\<lambda>s. int (AssignId base_id generic_id N s False)) ` {2 .. N}"
      by (intro image_eqI [where x = s]) simp_all
  qed
  have c: "AssignId base_id generic_id N size_in_words has_unboxed_fields = generic_id"
    if "N < size_in_words \<or> has_unboxed_fields"
    using that by (auto simp: AssignId_def)
  have d: "AssignId 5 40 6 4 False = 7"
    by (simp add: AssignId_def)
  from a' inj img c d show ?thesis
    by (simp add: bij_betw_def)
qed

theorem AssignId_size_formula_witness:
  "AssignId 5 40 6 4 False = 5 + nat (4 - 2)
   \<and> AssignId 5 40 6 7 False = 40 \<and> AssignId 5 40 6 4 True = 40
   \<and> int (AssignId 5 40 6 7 False) \<notin> {int 5 .. int 5 + 6 - 2}
   \<and> bij_betw (\<lambda>s. int (AssignId 5 40 6 s False)) {2 .. 6} {int 5 .. int 5 + 6 - 2}"
proof -
  note A = AssignId_size_formula [of 4 6 5 40 False]
  note B = AssignId_size_formula [of 7 6 5 40 False]
  note C = AssignId_size_formula [of 4 6 5 40 True]
  from A have 1: "AssignId 5 40 6 4 False = 5 + nat (4 - 2)" by simp
  from B have 2: "AssignId 5 40 6 7 False = 40"
    and 4: "int (AssignId 5 40 6 7 False) \<notin> {int 5 .. int 5 + 6 - 2}"
    by simp_all
  from C have 3: "AssignId 5 40 6 4 True = 40" by simp
  from A have 5: "bij_betw (\<lambda>s. int (AssignId 5 40 6 s False)) {2 .. 6} {int 5 .. int 5 + 6 - 2}"
    by (rule conjunct2 [THEN conjunct1])
  from 1 2 3 4 5 show ?thesis by blast
qed

section \<open>Properties of the body visitors\<close>

text \<open>
  C4. For every map and object, every body descriptor and every state,
  \<^verbatim>\<open>FlexibleBodyVisitor::Visit\<close> first calls \<^verbatim>\<open>SizeOf(map, object)\<close>, then calls
  \<^verbatim>\<open>IterateBody(object, size)\<close> with the size that call returned, on the state it
  left, and returns that size cast to \<^verbatim>\<open>ReturnType\<close>: the size itself for
  \<^verbatim>\<open>int\<close>. The recording descriptor shows the calls: one \<^verbatim>\<open>SizeOf\<close>, then one
  \<^verbatim>\<open>IterateBody\<close> with the same size, and no other.
\<close>

theorem FlexibleBodyVisitor_Visit_size:
  "FlexibleBodyVisitor_Visit SizeOf IterateBody rt map' object s =
     (static_cast_ReturnType rt (fst (SizeOf map' object s)),
      IterateBody object (fst (SizeOf map' object s)) (snd (SizeOf map' object s)))
   \<and> FlexibleBodyVisitor_Visit SizeOf IterateBody ReturnType_int map' object s =
     (int_value (fst (SizeOf map' object s)),
      IterateBody object (fst (SizeOf map' object s)) (snd (SizeOf map' object s)))
   \<and> FlexibleBodyVisitor_Visit (recording_SizeOf size_of) recording_IterateBody_sized
        ReturnType_int map' object calls =
     (int_value (size_of map' object),
      calls @ [SizeOf_called map' object, IterateBody_sized_called object (size_of map' object)])"
  by (simp add: FlexibleBodyVisitor_Visit_def recording_SizeOf_def
      recording_IterateBody_sized_def split: prod.split)

text \<open>
  C5. For every map and object, every body descriptor and every state,
  \<^verbatim>\<open>FixedBodyVisitor::Visit\<close> calls \<^verbatim>\<open>IterateBody(object)\<close> once and returns
  \<^verbatim>\<open>kSize\<close> cast to \<^verbatim>\<open>ReturnType\<close>: \<^verbatim>\<open>kSize\<close> itself for \<^verbatim>\<open>int\<close>. The
  returned value is the same for any two maps, objects, states and
  \<^verbatim>\<open>IterateBody\<close> members. The recording descriptor shows the one call.
\<close>

theorem FixedBodyVisitor_Visit_size:
  "FixedBodyVisitor_Visit kSize IterateBody rt map' object s =
     (static_cast_ReturnType rt kSize, IterateBody object s)
   \<and> FixedBodyVisitor_Visit kSize IterateBody ReturnType_int map' object s =
     (int_value kSize, IterateBody object s)
   \<and> fst (FixedBodyVisitor_Visit kSize IterateBody rt map' object s) =
     fst (FixedBodyVisitor_Visit kSize IterateBody2 rt map2 object2 s2)
   \<and> FixedBodyVisitor_Visit kSize recording_IterateBody ReturnType_int map' object calls =
     (int_value kSize, calls @ [IterateBody_called object])"
  by (simp add: FixedBodyVisitor_Visit_def recording_IterateBody_def)

section \<open>Properties of the atomic cells\<close>

text \<open>
  C6. A cell that holds \<open>v\<close>, with \<open>bits AND NOT msk = 0\<close>: a \<^verbatim>\<open>SetBits(bits, mask)\<close>
  that nobody disturbs leaves \<open>(v AND NOT msk) OR bits\<close> in the cell; in that word the
  bits under the mask are \<open>bits\<close> and the bits outside the mask are those of \<open>v\<close>. When
  other threads write in between (any \<open>env\<close>), the call still returns, and the cell
  then holds \<open>(u AND NOT msk) OR bits\<close> for the word \<open>u\<close> that the successful round
  read: no update is lost. The scenario of the spec: a cell holding \<open>0b0001\<close>,
  \<^verbatim>\<open>SetBits(0b0100, 0b1100)\<close>, leaves \<open>0b0101\<close>.
\<close>

theorem AtomicValue_SetBits_replaces_masked_bits:
  fixes v bits msk :: "'w::len word"
  assumes "bits AND NOT msk = 0"
  shows "AtomicValue_SetBits [] bits msk v = Inr ((v AND NOT msk) OR bits)
    \<and> ((v AND NOT msk) OR bits) AND msk = bits
    \<and> ((v AND NOT msk) OR bits) AND NOT msk = v AND NOT msk
    \<and> (\<exists>u \<in> set (v # env). AtomicValue_SetBits env bits msk v = Inr ((u AND NOT msk) OR bits))
    \<and> AtomicValue_SetBits [] 4 12 (1 :: 64 word) = Inr 5"
proof -
  have scenario: "AtomicValue_SetBits [] 4 12 (1 :: 64 word) = Inr 5"
    by (simp add: AtomicValue_SetBits_def AtomicValue_SetBits_loop_sequential)
  from assms masked_bits_replaced [OF assms] unmasked_bits_preserved [OF assms]
    AtomicValue_SetBits_loop_no_lost_update [of v env bits msk] scenario
  show ?thesis
    by (simp add: AtomicValue_SetBits_def AtomicValue_SetBits_loop_sequential)
qed

theorem AtomicValue_SetBits_replaces_masked_bits_witness:
  "(4 :: 64 word) AND NOT 12 = 0 \<and> AtomicValue_SetBits [] 4 12 (1 :: 64 word) = Inr 5
    \<and> (5 :: 64 word) AND 12 = 4 \<and> (5 :: 64 word) AND NOT 12 = 1"
proof -
  have h: "(4 :: 64 word) AND NOT 12 = 0" by simp
  have e: "((1 :: 64 word) AND NOT 12) OR 4 = 5" by simp
  show ?thesis
    using h AtomicValue_SetBits_replaces_masked_bits [OF h, of 1 "[]"] by (simp add: e)
qed




text \<open>
  C9. A default-constructed \<^verbatim>\<open>AtomicNumber\<close>, \<^verbatim>\<open>AtomicValue\<close> and
  \<^verbatim>\<open>NoBarrierAtomicValue\<close> has \<^verbatim>\<open>Value()\<close> zero, and a default-constructed
  \<^verbatim>\<open>AtomicEnumSet\<close> is empty: \<^verbatim>\<open>IsEmpty()\<close> holds and \<^verbatim>\<open>Contains(e)\<close> holds
  for no element.
\<close>

theorem default_constructed_cells_are_zero:
  "AtomicNumber_Value (AtomicNumber_default :: 'w::len word) = 0
   \<and> AtomicValue_Value (AtomicValue_default :: 'w word) = 0
   \<and> NoBarrierAtomicValue_Value (NoBarrierAtomicValue_default :: 'w word) = 0
   \<and> IsEmpty (AtomicEnumSet_default :: 'w word)
   \<and> (\<forall>e. \<not> Contains (AtomicEnumSet_default :: 'w word) e)"
  by (simp add: AtomicNumber_Value_def AtomicNumber_default_def AtomicValue_Value_def
      AtomicValue_default_def AtomicValue_to_return_type_def NoBarrierAtomicValue_Value_def
      NoBarrierAtomicValue_default_def NoBarrierAtomicValue_to_return_type_def IsEmpty_def
      Contains_def ToIntegral_def AtomicEnumSet_default_def AtomicEnumSet_init_def
      atomic_cell_defs)

text \<open>
  C10. With one thread (\<open>env = []\<close>) and elements below the width of the word: after
  \<^verbatim>\<open>Add(e)\<close>, \<^verbatim>\<open>Contains(e)\<close> holds; after \<^verbatim>\<open>Remove(e)\<close> it does not; both
  leave \<^verbatim>\<open>Contains(e')\<close> as it was for every other element; \<^verbatim>\<open>Add\<close> is
  idempotent; and \<^verbatim>\<open>Add\<close> and \<^verbatim>\<open>Remove\<close> of two different elements commute.
\<close>

theorem AtomicEnumSet_is_a_set:
  fixes bits :: "'w::len word"
  assumes "e < LENGTH('w)" and "e' \<noteq> e"
  shows "Contains (Add [] e bits) e
    \<and> \<not> Contains (Remove [] e bits) e
    \<and> Contains (Add [] e bits) e' = Contains bits e'
    \<and> Contains (Remove [] e bits) e' = Contains bits e'
    \<and> Add [] e (Add [] e bits) = Add [] e bits
    \<and> Add [] e (Add [] e' bits) = Add [] e' (Add [] e bits)
    \<and> Remove [] e (Remove [] e' bits) = Remove [] e' (Remove [] e bits)
    \<and> Add [] e (Remove [] e' bits) = Remove [] e' (Add [] e bits)"
proof -
  have 1: "Contains (Add [] e bits) e"
    using assms(1) by (simp add: Contains_iff_bit bit_Add)
  have 2: "\<not> Contains (Remove [] e bits) e"
    by (simp add: Contains_iff_bit bit_Remove)
  have 3: "Contains (Add [] e bits) e' = Contains bits e'"
    using assms(2) by (simp add: Contains_iff_bit bit_Add)
  have 4: "Contains (Remove [] e bits) e' = Contains bits e'"
    using assms(2) by (simp add: Contains_iff_bit bit_Remove)
  have 5: "Add [] e (Add [] e bits) = Add [] e bits"
    by (rule bit_word_eqI) (auto simp: bit_Add)
  have 6: "Add [] e (Add [] e' bits) = Add [] e' (Add [] e bits)"
    by (rule bit_word_eqI) (auto simp: bit_Add)
  have 7: "Remove [] e (Remove [] e' bits) = Remove [] e' (Remove [] e bits)"
    by (rule bit_word_eqI) (auto simp: bit_Remove)
  have 8: "Add [] e (Remove [] e' bits) = Remove [] e' (Add [] e bits)"
    using assms(2) by (intro bit_word_eqI) (auto simp: bit_Add bit_Remove)
  from 1 2 3 4 5 6 7 8 show ?thesis by simp
qed

theorem AtomicEnumSet_is_a_set_witness:
  "(1 :: nat) < LENGTH(64) \<and> (3 :: nat) \<noteq> 1
   \<and> Contains (Add [] 1 (AtomicEnumSet_default :: 64 word)) 1
   \<and> \<not> Contains (Remove [] 1 (AtomicEnumSet_init (10 :: 64 word))) 1
   \<and> Contains (Remove [] 1 (AtomicEnumSet_init (10 :: 64 word))) 3"
proof -
  have h1: "(1 :: nat) < LENGTH(64)" by simp
  have h2: "(3 :: nat) \<noteq> 1" by simp
  have c: "Contains (AtomicEnumSet_init (10 :: 64 word)) 3"
    by (simp add: Contains_def AtomicEnumSet_init_def ToIntegral_def Mask_def Acquire_Load_def)
  show ?thesis
    using h1 c AtomicEnumSet_is_a_set [OF h1 h2, of "AtomicEnumSet_default :: 64 word"]
      AtomicEnumSet_is_a_set [OF h1 h2, of "AtomicEnumSet_init (10 :: 64 word)"]
    by simp
qed

end
